theory Spec2Isabelle
  imports Complex_Main "HOL-Library.Word"
begin

section \<open>Values shared by the whole development\<close>

text \<open>
  The program is the TypeScript class \<open>LiveSession\<close> (the real-time session engine) and
  the React hook \<open>useSpeech\<close>. JavaScript numbers are modelled as \<open>real\<close>: every
  arithmetic step the claims depend on (a product of a float32 sample with a 15 or 16 bit
  constant, a quotient of a 16-bit integer by \<open>32768\<close>, the sums of the playback cursor) is
  read as the exact operation. Byte buffers (\<open>ArrayBuffer\<close>, \<open>Uint8Array\<close>) are lists of
  8-bit words and the elements of an \<open>Int16Array\<close> are 16-bit words.
\<close>

type_synonym byte = "8 word"
type_synonym int16 = "16 word"

text \<open>The exceptions the browser interfaces used by the source can raise.\<close>

datatype js_error =
    InvalidCharacterError
  | RangeError
  | NotSupportedError
  | InvalidStateError
  | TypeError
  | NotAllowedError
  | CallbackRejected

section \<open>PCM codec\<close>

subsection \<open>Float to PCM16 (\<open>floatTo16BitPCM\<close>)\<close>

text \<open>
  \<open>DataView.setInt16\<close> converts its argument with \<open>ToInt16\<close>: the number is truncated
  towards zero and reduced modulo \<open>2 ^ 16\<close>; with \<open>littleEndian = true\<close> the low byte
  is written first.
\<close>

definition js_truncate :: "real \<Rightarrow> int" where
  "js_truncate v = (if v < 0 then \<lceil>v\<rceil> else \<lfloor>v\<rfloor>)"

definition toInt16 :: "real \<Rightarrow> int16" where
  "toInt16 v = word_of_int (js_truncate v)"

definition setInt16_le :: "int16 \<Rightarrow> byte list" where
  "setInt16_le w = [ucast w, ucast (drop_bit 8 w)]"

text \<open>\<open>let s = Math.max(-1, Math.min(1, float32Array[i]))\<close>\<close>

definition clamp_sample :: "real \<Rightarrow> real" where
  "clamp_sample x = max (- 1) (min 1 x)"

text \<open>\<open>s < 0 ? s * 0x8000 : s * 0x7FFF\<close>\<close>

definition scale_sample :: "real \<Rightarrow> real" where
  "scale_sample s = (if s < 0 then s * 32768 else s * 32767)"

definition floatTo16BitPCM :: "real list \<Rightarrow> byte list" where
  "floatTo16BitPCM float32Array =
     concat (map (\<lambda>x. setInt16_le (toInt16 (scale_sample (clamp_sample x)))) float32Array)"

subsection \<open>PCM16 to float (\<open>pcmToAudioBuffer\<close>)\<close>

text \<open>
  \<open>new Int16Array(arrayBuffer)\<close> raises a \<open>RangeError\<close> when the byte length is not a
  multiple of two; otherwise element \<open>i\<close> is made of bytes \<open>2 i\<close> (low) and \<open>2 i + 1\<close>
  (high), the byte order of every platform a browser runs on.
\<close>

fun int16_elements :: "byte list \<Rightarrow> int16 list" where
  "int16_elements (lo # hi # rest) = word_cat hi lo # int16_elements rest"
| "int16_elements _ = []"

definition new_Int16Array :: "byte list \<Rightarrow> js_error + int16 list" where
  "new_Int16Array arrayBuffer =
     (if odd (length arrayBuffer) then Inl RangeError else Inr (int16_elements arrayBuffer))"

text \<open>The loop of \<open>pcmToAudioBuffer\<close>: \<open>float32Array[i] = int16Array[i] / 32768.0\<close>.\<close>

definition pcmToFloat32Array :: "byte list \<Rightarrow> js_error + real list" where
  "pcmToFloat32Array arrayBuffer =
     (case new_Int16Array arrayBuffer of
        Inl e \<Rightarrow> Inl e
      | Inr int16Array \<Rightarrow> Inr (map (\<lambda>w. real_of_int (sint w) / 32768) int16Array))"

text \<open>
  An \<open>AudioBuffer\<close> with one channel. \<open>createBuffer(1, length, 24000)\<close> raises
  \<open>NotSupportedError\<close> for a length of zero; the duration of a buffer is its length
  divided by its sample rate.
\<close>

record audio_buffer =
  channelData :: "real list"
  sampleRate :: nat

definition duration :: "audio_buffer \<Rightarrow> real" where
  "duration b = real (length (channelData b)) / real (sampleRate b)"

definition createBuffer :: "nat \<Rightarrow> nat \<Rightarrow> js_error + audio_buffer" where
  "createBuffer len rate =
     (if len = 0 then Inl NotSupportedError
      else Inr \<lparr>channelData = replicate len 0, sampleRate = rate\<rparr>)"

definition pcmToAudioBuffer :: "byte list \<Rightarrow> js_error + audio_buffer" where
  "pcmToAudioBuffer arrayBuffer =
     (case pcmToFloat32Array arrayBuffer of
        Inl e \<Rightarrow> Inl e
      | Inr float32Array \<Rightarrow>
          (case createBuffer (length float32Array) 24000 of
             Inl e \<Rightarrow> Inl e
           | Inr audioBuffer \<Rightarrow> Inr (audioBuffer\<lparr>channelData := float32Array\<rparr>)))"

section \<open>Binary to transport text\<close>

subsection \<open>The platform functions \<open>btoa\<close> and \<open>atob\<close>\<close>

text \<open>
  \<open>btoa\<close> and \<open>atob\<close> belong to the browser, not to the repository. They are modelled
  after their definition in the HTML standard (forgiving-base64 encode and decode) on
  binary strings, whose characters are the code units \<open>0 .. 255\<close>: HOL's 8-bit
  \<open>char\<close>. \<open>btoa\<close> raises only for a code unit above \<open>255\<close>, which a binary string
  does not hold. \<open>atob\<close> strips ASCII whitespace, removes one or two padding characters
  from a text whose length is a multiple of four, and raises \<open>InvalidCharacterError\<close>
  (here: \<open>None\<close>) when the remaining length is \<open>1\<close> modulo \<open>4\<close> or a character is outside
  the alphabet; a final group of two or three characters yields one or two bytes, its
  spare low bits discarded.
\<close>

definition base64_alphabet :: string where
  "base64_alphabet = ''ABCDEFGHIJKLMNOPQRSTUVWXYZabcdefghijklmnopqrstuvwxyz0123456789+/''"

definition base64_char :: "nat \<Rightarrow> char" where
  "base64_char i = base64_alphabet ! i"

fun index_of :: "char \<Rightarrow> string \<Rightarrow> nat option" where
  "index_of c [] = None"
| "index_of c (x # xs) = (if c = x then Some 0 else map_option Suc (index_of c xs))"

definition base64_value :: "char \<Rightarrow> nat option" where
  "base64_value c = index_of c base64_alphabet"

fun encode_groups :: "nat list \<Rightarrow> nat list" where
  "encode_groups (a # b # c # rest) =
     (let n = (a * 256 + b) * 256 + c
      in [n div 262144, n div 4096 mod 64, n div 64 mod 64, n mod 64] @ encode_groups rest)"
| "encode_groups [a, b] =
     (let n = (a * 256 + b) * 4 in [n div 4096, n div 64 mod 64, n mod 64])"
| "encode_groups [a] = (let n = a * 16 in [n div 64, n mod 64])"
| "encode_groups [] = []"

definition padding :: "nat \<Rightarrow> string" where
  "padding len = replicate ((3 - len mod 3) mod 3) (CHR ''='')"

definition btoa :: "string \<Rightarrow> string" where
  "btoa binary = map base64_char (encode_groups (map of_char binary)) @ padding (length binary)"

definition ascii_whitespace :: "char \<Rightarrow> bool" where
  "ascii_whitespace c = (c \<in> set [CHR 0x09, CHR 0x0A, CHR 0x0C, CHR 0x0D, CHR 0x20])"

definition remove_padding :: "string \<Rightarrow> string" where
  "remove_padding d =
     (if length d mod 4 = 0 then
        (if 2 \<le> length d \<and> last d = CHR ''='' \<and> last (butlast d) = CHR ''=''
         then butlast (butlast d)
         else if d \<noteq> [] \<and> last d = CHR ''='' then butlast d
         else d)
      else d)"

fun decode_groups :: "nat list \<Rightarrow> nat list" where
  "decode_groups (a # b # c # d # rest) =
     (let n = ((a * 64 + b) * 64 + c) * 64 + d
      in [n div 65536 mod 256, n div 256 mod 256, n mod 256] @ decode_groups rest)"
| "decode_groups [a, b, c] =
     (let n = ((a * 64 + b) * 64 + c) div 4 in [n div 256 mod 256, n mod 256])"
| "decode_groups [a, b] = [(a * 64 + b) div 16 mod 256]"
| "decode_groups _ = []"

fun all_values :: "char list \<Rightarrow> nat list option" where
  "all_values [] = Some []"
| "all_values (c # cs) =
     (case base64_value c of
        None \<Rightarrow> None
      | Some v \<Rightarrow> (case all_values cs of None \<Rightarrow> None | Some vs \<Rightarrow> Some (v # vs)))"

definition atob :: "string \<Rightarrow> string option" where
  "atob data =
     (let d = remove_padding (filter (\<lambda>c. \<not> ascii_whitespace c) data)
      in if length d mod 4 = 1 then None
         else (case all_values d of
                 None \<Rightarrow> None
               | Some vs \<Rightarrow> Some (map char_of (decode_groups vs))))"

subsection \<open>\<open>arrayBufferToBase64\<close> and \<open>base64ToArrayBuffer\<close>\<close>

text \<open>
  \<open>binary += String.fromCharCode(bytes[i])\<close>, then \<open>btoa(binary)\<close>; and in the other
  direction \<open>atob(base64)\<close>, then \<open>bytes[i] = binaryString.charCodeAt(i)\<close>.
\<close>

definition arrayBufferToBase64 :: "byte list \<Rightarrow> string" where
  "arrayBufferToBase64 buffer = btoa (map (\<lambda>b. char_of (unat b)) buffer)"

definition base64ToArrayBuffer :: "string \<Rightarrow> js_error + byte list" where
  "base64ToArrayBuffer base64 =
     (case atob base64 of
        None \<Rightarrow> Inl InvalidCharacterError
      | Some binaryString \<Rightarrow> Inr (map (\<lambda>c. word_of_nat (of_char c)) binaryString))"

section \<open>The live session\<close>

subsection \<open>Messages, callbacks and effects\<close>

datatype LiveConnectionState = DISCONNECTED | CONNECTING | CONNECTED | ERROR

text \<open>Values exchanged with the tool dispatcher (\<open>any\<close> in the source).\<close>

datatype js_value =
    JUndefined
  | JNull
  | JBool bool
  | JNumber real
  | JString string
  | JArray "js_value list"
  | JObject "(string \<times> js_value) list"

record function_call =
  fc_name :: string
  fc_args :: "(string \<times> js_value) list"
  fc_id :: string

record function_response =
  fr_id :: string
  fr_name :: string
  fr_response :: js_value

text \<open>
  One inbound \<open>LiveServerMessage\<close>. \<open>inlineData\<close> is
  \<open>serverContent.modelTurn.parts[0].inlineData.data\<close>; a transcription field is
  \<open>Some text\<close> when the transcription object is present with that text. \<open>toolCall\<close> is
  \<open>message.toolCall.functionCalls\<close>.
\<close>

record server_content =
  inlineData :: "string option"
  interrupted :: bool
  inputTranscription :: "string option"
  outputTranscription :: "string option"
  turnComplete :: bool

record live_message =
  serverContent :: "server_content option"
  toolCall :: "function_call list option"

text \<open>
  The handles a session holds. A timer handle returned by \<open>setInterval\<close> is a positive
  number, hence never falsy.
\<close>

datatype audio_context = AudioContext nat
datatype media_source = MediaStreamSource
datatype script_processor = ScriptProcessor nat
datatype channel = Channel
datatype timer = Timer nat
datatype canvas = Canvas
datatype media_stream = MediaStream

text \<open>
  Everything the session does to the outside is recorded, in order, as an event: the
  calls of the caller-supplied callbacks, the messages sent on the channel, the console
  and the calls that release browser resources. A callback of the configuration is an
  observer: its invocation is recorded and it returns normally. A rejection of the
  promise returned by \<open>handleMessage\<close>, which nobody awaits, is the event
  \<open>UnhandledRejection\<close>.
\<close>

datatype event =
    StateChange LiveConnectionState
  | VolumeChange real real
  | Caption string bool bool
  | SendToolResponse "function_response list"
  | ConsoleError string
  | SetTimeout real event
  | ClearInterval timer
  | CloseContext audio_context
  | DisconnectProcessor script_processor
  | DisconnectSource media_source
  | CloseChannel channel
  | UnhandledRejection js_error

text \<open>
  \<open>LiveConfig\<close>: every callback is optional. \<open>onToolCall\<close> returns a promise, which
  resolves to the list of results or rejects.
\<close>

record live_config =
  onToolCall :: "(function_call list \<Rightarrow> js_error + js_value list) option"
  onStateChange :: bool
  onVolumeChange :: bool
  onCaption :: bool

text \<open>
  An \<open>AudioBufferSourceNode\<close>. \<open>start(when)\<close> raises \<open>RangeError\<close> for a negative
  time and \<open>InvalidStateError\<close> when the node was started before; \<open>stop()\<close> raises
  \<open>InvalidStateError\<close> only when the node was never started, so stopping a node that
  has finished playing is allowed.
\<close>

record source_node =
  node_buffer :: audio_buffer
  node_start :: "real option"
  node_stopped :: bool
  node_ended :: bool

definition source_start :: "real \<Rightarrow> source_node \<Rightarrow> js_error + source_node" where
  "source_start when n =
     (if when < 0 then Inl RangeError
      else if node_start n \<noteq> None then Inl InvalidStateError
      else Inr (n\<lparr>node_start := Some when\<rparr>))"

definition source_stop :: "source_node \<Rightarrow> js_error + source_node" where
  "source_stop n =
     (if node_start n = None then Inl InvalidStateError
      else Inr (n\<lparr>node_stopped := True\<rparr>))"

subsection \<open>The state of a \<open>LiveSession\<close>\<close>

text \<open>
  The fields of the class, followed by the two parts of the browser the session acts on:
  the source nodes created so far (a node is referred to by its position in \<open>nodes\<close>)
  and the events. \<open>scheduledSources\<close> is a JavaScript \<open>Set\<close>, kept in insertion order.
\<close>

record live_session =
  config :: live_config
  session :: "channel option"
  inputAudioContext :: "audio_context option"
  outputAudioContext :: "audio_context option"
  inputSource :: "media_source option"
  processor :: "script_processor option"
  nextStartTime :: real
  scheduledSources :: "nat list"
  active :: bool
  videoInterval :: "timer option"
  videoCanvas :: "canvas option"
  nodes :: "source_node list"
  events :: "event list"

definition new_LiveSession :: "live_config \<Rightarrow> live_session" where
  "new_LiveSession cfg =
     \<lparr>config = cfg, session = None, inputAudioContext = None, outputAudioContext = None,
      inputSource = None, processor = None, nextStartTime = 0, scheduledSources = [],
      active = False, videoInterval = None, videoCanvas = None, nodes = [], events = []\<rparr>"

definition emit :: "event list \<Rightarrow> live_session \<Rightarrow> live_session" where
  "emit es s = s\<lparr>events := events s @ es\<rparr>"

text \<open>\<open>this.config.onX?.(...)\<close>: the call happens when the callback is configured.\<close>

definition notify :: "bool \<Rightarrow> event \<Rightarrow> live_session \<Rightarrow> live_session" where
  "notify configured e s = (if configured then emit [e] s else s)"

definition set_add :: "nat \<Rightarrow> nat list \<Rightarrow> nat list" where
  "set_add x xs = (if x \<in> set xs then xs else xs @ [x])"

text \<open>
  The connection state an observer of the session holds: the argument of the last
  \<open>onStateChange\<close> call, \<open>DISCONNECTED\<close> before the first one (the user interface
  keeps it in \<open>liveState\<close>, initialised to \<open>DISCONNECTED\<close> and set by \<open>onStateChange\<close>).
  The class itself has no field for it.
\<close>

fun last_state :: "LiveConnectionState \<Rightarrow> event list \<Rightarrow> LiveConnectionState" where
  "last_state st [] = st"
| "last_state st (StateChange x # es) = last_state x es"
| "last_state st (e # es) = last_state st es"

definition connection_state :: "live_session \<Rightarrow> LiveConnectionState" where
  "connection_state s = last_state DISCONNECTED (events s)"

subsection \<open>Playback: \<open>playAudioChunk\<close> and \<open>stopAudioPlayback\<close>\<close>

text \<open>
  The body of \<open>playAudioChunk\<close> is one \<open>try\<close> block whose \<open>catch\<close> logs the error and
  does nothing else. The block is modelled as a function that returns the error raised,
  if any, together with the state reached at that point; \<open>catch_chunk_error\<close> is the
  \<open>catch\<close>. The device time \<open>outputAudioContext.currentTime\<close> is the argument \<open>t\<close>.
\<close>

definition log_chunk_error :: "live_session \<Rightarrow> live_session" where
  "log_chunk_error s = emit [ConsoleError ''Error playing audio chunk''] s"

definition catch_chunk_error :: "js_error option \<times> live_session \<Rightarrow> live_session" where
  "catch_chunk_error r = (case r of (None, s) \<Rightarrow> s | (Some e, s) \<Rightarrow> log_chunk_error s)"

text \<open>
  Lines 321 to 341: create the source node, move the cursor up to the device time when
  it has fallen behind, start the node at the cursor, advance the cursor by the
  duration, track the node, report the volume. Reading a method of a context that is
  \<open>null\<close> raises a \<open>TypeError\<close>.
\<close>

definition schedule_chunk ::
  "real \<Rightarrow> audio_buffer \<Rightarrow> live_session \<Rightarrow> js_error option \<times> live_session" where
  "schedule_chunk t audioBuffer s =
     (case outputAudioContext s of
        None \<Rightarrow> (Some TypeError, s)
      | Some ctx \<Rightarrow>
          (let source = \<lparr>node_buffer = audioBuffer, node_start = None,
                          node_stopped = False, node_ended = False\<rparr>;
               i = length (nodes s);
               s1 = s\<lparr>nodes := nodes s @ [source]\<rparr>;
               s2 = (if nextStartTime s1 < t then s1\<lparr>nextStartTime := t\<rparr> else s1)
           in case source_start (nextStartTime s2) source of
                Inl e \<Rightarrow> (Some e, s2)
              | Inr started \<Rightarrow>
                  (let s3 = s2\<lparr>nodes := (nodes s2)[i := started],
                               nextStartTime := nextStartTime s2 + duration audioBuffer,
                               scheduledSources := set_add i (scheduledSources s2)\<rparr>;
                       s4 = notify (onVolumeChange (config s3)) (VolumeChange 0 0.4) s3
                   in (None,
                       emit [SetTimeout (duration audioBuffer * 1000) (VolumeChange 0 0)] s4))))"

text \<open>Lines 317 to 341, the whole \<open>try\<close> block: decode, then schedule.\<close>

definition playAudioChunk_try ::
  "real \<Rightarrow> string \<Rightarrow> live_session \<Rightarrow> js_error option \<times> live_session" where
  "playAudioChunk_try t base64Audio s =
     (case base64ToArrayBuffer base64Audio of
        Inl e \<Rightarrow> (Some e, s)
      | Inr arrayBuffer \<Rightarrow>
          (case pcmToAudioBuffer arrayBuffer of
             Inl e \<Rightarrow> (Some e, s)
           | Inr audioBuffer \<Rightarrow> schedule_chunk t audioBuffer s))"

definition playAudioChunk :: "real \<Rightarrow> string \<Rightarrow> live_session \<Rightarrow> live_session" where
  "playAudioChunk t base64Audio s =
     (case outputAudioContext s of
        None \<Rightarrow> s
      | Some ctx \<Rightarrow> catch_chunk_error (playAudioChunk_try t base64Audio s))"

text \<open>
  \<open>playAudioChunk\<close> is \<open>async\<close>: when it is called it runs up to
  \<open>await this.pcmToAudioBuffer(...)\<close> (\<open>playAudioChunk_begin\<close>), and the rest runs later
  as a continuation (\<open>playAudioChunk_resume\<close>), after the caller has gone on.
\<close>

datatype pending_chunk = NoChunk | Pending "js_error + audio_buffer"

definition playAudioChunk_begin :: "string \<Rightarrow> live_session \<Rightarrow> pending_chunk \<times> live_session" where
  "playAudioChunk_begin base64Audio s =
     (case outputAudioContext s of
        None \<Rightarrow> (NoChunk, s)
      | Some ctx \<Rightarrow>
          (case base64ToArrayBuffer base64Audio of
             Inl e \<Rightarrow> (NoChunk, log_chunk_error s)
           | Inr arrayBuffer \<Rightarrow> (Pending (pcmToAudioBuffer arrayBuffer), s)))"

definition playAudioChunk_resume :: "real \<Rightarrow> pending_chunk \<Rightarrow> live_session \<Rightarrow> live_session" where
  "playAudioChunk_resume t p s =
     (case p of
        NoChunk \<Rightarrow> s
      | Pending (Inl e) \<Rightarrow> log_chunk_error s
      | Pending (Inr audioBuffer) \<Rightarrow> catch_chunk_error (schedule_chunk t audioBuffer s))"

text \<open>\<open>source.onended\<close>: the node \<open>i\<close> has finished playing and leaves the set.\<close>

definition onended :: "nat \<Rightarrow> live_session \<Rightarrow> live_session" where
  "onended i s =
     s\<lparr>nodes := (if i < length (nodes s)
                  then (nodes s)[i := (nodes s ! i)\<lparr>node_ended := True\<rparr>] else nodes s),
       scheduledSources := removeAll i (scheduledSources s)\<rparr>"

text \<open>\<open>try { source.stop(); } catch (e) {}\<close> for one tracked node.\<close>

definition stop_source :: "nat \<Rightarrow> source_node list \<Rightarrow> source_node list" where
  "stop_source i ns =
     (if i < length ns
      then (case source_stop (ns ! i) of Inl e \<Rightarrow> ns | Inr stopped \<Rightarrow> ns[i := stopped])
      else ns)"

definition stopAudioPlayback :: "live_session \<Rightarrow> live_session" where
  "stopAudioPlayback s =
     s\<lparr>nodes := fold stop_source (scheduledSources s) (nodes s),
       scheduledSources := [],
       nextStartTime := 0\<rparr>"

text \<open>A sequence of chunks, each played at its own device time.\<close>

fun enqueue_all :: "(real \<times> string) list \<Rightarrow> live_session \<Rightarrow> live_session" where
  "enqueue_all [] s = s"
| "enqueue_all ((t, base64Audio) # rest) s = enqueue_all rest (playAudioChunk t base64Audio s)"

text \<open>The start time and the duration of every node that was started, in creation order.\<close>

fun started_chunks :: "source_node list \<Rightarrow> (real \<times> real) list" where
  "started_chunks [] = []"
| "started_chunks (n # ns) =
     (case node_start n of
        None \<Rightarrow> started_chunks ns
      | Some w \<Rightarrow> (w, duration (node_buffer n)) # started_chunks ns)"

text \<open>No chunk of the list starts before the chunk in front of it has ended.\<close>

fun back_to_back :: "(real \<times> real) list \<Rightarrow> bool" where
  "back_to_back ((s1, d1) # (s2, d2) # rest) =
     (s1 + d1 \<le> s2 \<and> back_to_back ((s2, d2) # rest))"
| "back_to_back _ = True"

text \<open>Every tracked node exists and was started (\<open>add\<close> follows \<open>start\<close> in the source).\<close>

definition tracked_started :: "live_session \<Rightarrow> bool" where
  "tracked_started s =
     list_all (\<lambda>i. i < length (nodes s) \<and> node_start (nodes s ! i) \<noteq> None) (scheduledSources s)"

subsection \<open>\<open>stopVideoStream\<close> and \<open>stop\<close>\<close>

definition stopVideoStream :: "live_session \<Rightarrow> live_session" where
  "stopVideoStream s =
     (let s1 = (case videoInterval s of
                  None \<Rightarrow> s
                | Some tm \<Rightarrow> (emit [ClearInterval tm] s)\<lparr>videoInterval := None\<rparr>)
      in s1\<lparr>videoCanvas := None\<rparr>)"

definition close_input_context :: "live_session \<Rightarrow> live_session" where
  "close_input_context s =
     (case inputAudioContext s of
        None \<Rightarrow> s
      | Some ctx \<Rightarrow> (emit [CloseContext ctx] s)\<lparr>inputAudioContext := None\<rparr>)"

definition close_output_context :: "live_session \<Rightarrow> live_session" where
  "close_output_context s =
     (case outputAudioContext s of
        None \<Rightarrow> s
      | Some ctx \<Rightarrow> (emit [CloseContext ctx] s)\<lparr>outputAudioContext := None\<rparr>)"

definition disconnect_processor :: "live_session \<Rightarrow> live_session" where
  "disconnect_processor s =
     (case processor s of
        None \<Rightarrow> s
      | Some p \<Rightarrow> (emit [DisconnectProcessor p] s)\<lparr>processor := None\<rparr>)"

definition disconnect_source :: "live_session \<Rightarrow> live_session" where
  "disconnect_source s =
     (case inputSource s of
        None \<Rightarrow> s
      | Some src \<Rightarrow> (emit [DisconnectSource src] s)\<lparr>inputSource := None\<rparr>)"

text \<open>
  \<open>this.session.then(s => { if (s.close) s.close(); }).catch(() => {})\<close>: the close is
  requested and every error of it is swallowed.
\<close>

definition close_session :: "live_session \<Rightarrow> live_session" where
  "close_session s =
     (case session s of
        None \<Rightarrow> s
      | Some ch \<Rightarrow> (emit [CloseChannel ch] s)\<lparr>session := None\<rparr>)"

definition stop :: "live_session \<Rightarrow> live_session" where
  "stop s =
     close_session (disconnect_source (disconnect_processor (close_output_context
       (close_input_context (stopAudioPlayback (stopVideoStream (s\<lparr>active := False\<rparr>)))))))"

text \<open>All the handles of the session are cleared.\<close>

definition references_cleared :: "live_session \<Rightarrow> bool" where
  "references_cleared s =
     (session s = None \<and> inputAudioContext s = None \<and> outputAudioContext s = None \<and>
      inputSource s = None \<and> processor s = None \<and> videoInterval s = None \<and>
      videoCanvas s = None)"

subsection \<open>\<open>connect\<close> and the channel callbacks\<close>

text \<open>
  \<open>connect\<close> up to the point where the channel is requested. Its argument is the outcome
  of \<open>getUserMedia\<close>; the \<open>catch\<close> logs, reports \<open>ERROR\<close> and calls \<open>stop()\<close>.
  \<open>onclose\<close> and \<open>onerror\<close> are the callbacks registered on the channel.
\<close>

definition connect :: "js_error + media_stream \<Rightarrow> live_session \<Rightarrow> live_session" where
  "connect microphone s =
     (if active s then s
      else
        (let s1 = notify (onStateChange (config s)) (StateChange CONNECTING) s;
             s2 = s1\<lparr>inputAudioContext := Some (AudioContext 16000),
                      outputAudioContext := Some (AudioContext 24000)\<rparr>
         in case microphone of
              Inl e \<Rightarrow>
                stop (notify (onStateChange (config s2)) (StateChange ERROR)
                        (emit [ConsoleError ''Failed to connect live session''] s2))
            | Inr stream \<Rightarrow> s2\<lparr>session := Some Channel\<rparr>))"

definition onclose :: "live_session \<Rightarrow> live_session" where
  "onclose s = stop (notify (onStateChange (config s)) (StateChange DISCONNECTED) s)"

definition onerror :: "live_session \<Rightarrow> live_session" where
  "onerror s =
     stop (notify (onStateChange (config s)) (StateChange ERROR)
             (emit [ConsoleError ''Live API Error:''] s))"

subsection \<open>\<open>handleMessage\<close>\<close>

text \<open>Step 1: the audio of the message, if any, is handed to \<open>playAudioChunk\<close>.\<close>

definition handleAudio :: "live_message \<Rightarrow> live_session \<Rightarrow> pending_chunk \<times> live_session" where
  "handleAudio message s =
     (case serverContent message of
        None \<Rightarrow> (NoChunk, s)
      | Some sc \<Rightarrow>
          (case inlineData sc of
             None \<Rightarrow> (NoChunk, s)
           | Some audioData \<Rightarrow>
               (if audioData \<noteq> [] \<and> outputAudioContext s \<noteq> None
                then playAudioChunk_begin audioData s
                else (NoChunk, s))))"

text \<open>Step 2: an interruption flushes the playback and emits the synthetic caption.\<close>

definition handleInterruption :: "live_message \<Rightarrow> live_session \<Rightarrow> live_session" where
  "handleInterruption message s =
     (case serverContent message of
        None \<Rightarrow> s
      | Some sc \<Rightarrow>
          (if interrupted sc
           then (let s1 = stopAudioPlayback s
                 in notify (onCaption (config s1)) (Caption ''[Interrupted]'' False True) s1)
           else s))"

text \<open>Step 3: the captions of the user's and of the model's transcription.\<close>

definition handleTranscription ::
  "bool \<Rightarrow> string option \<Rightarrow> server_content \<Rightarrow> live_session \<Rightarrow> live_session" where
  "handleTranscription isUser transcription sc s =
     (case transcription of
        None \<Rightarrow> s
      | Some text \<Rightarrow>
          (if text \<noteq> [] then notify (onCaption (config s)) (Caption text isUser (turnComplete sc)) s
           else s))"

definition handleTranscriptions :: "live_message \<Rightarrow> live_session \<Rightarrow> live_session" where
  "handleTranscriptions message s =
     (case serverContent message of
        None \<Rightarrow> s
      | Some sc \<Rightarrow>
          handleTranscription False (outputTranscription sc) sc
            (handleTranscription True (inputTranscription sc) sc s))"


text \<open>
  Step 4: the tool calls. \<open>results.map((result, index) => ...)\<close> reads
  \<open>toolCalls[index]\<close>, which is \<open>undefined\<close> beyond the end of \<open>toolCalls\<close>, and reading
  \<open>.id\<close> of it raises a \<open>TypeError\<close>. The argument \<open>sessionPromise\<close> is the outcome of
  the promise of the channel.
\<close>

definition copy_call :: "function_call \<Rightarrow> function_call" where
  "copy_call fc = \<lparr>fc_name = fc_name fc, fc_args = fc_args fc, fc_id = fc_id fc\<rparr>"

definition functionResponses ::
  "function_call list \<Rightarrow> js_value list \<Rightarrow> js_error + function_response list" where
  "functionResponses toolCalls results =
     (if length toolCalls < length results then Inl TypeError
      else Inr (map (\<lambda>(index, result).
                  \<lparr>fr_id = fc_id (toolCalls ! index),
                   fr_name = fc_name (toolCalls ! index),
                   fr_response = JObject [(''result'', result)]\<rparr>)
                (enumerate 0 results)))"

definition handleToolCall ::
  "live_message \<Rightarrow> js_error + channel \<Rightarrow> live_session \<Rightarrow> live_session" where
  "handleToolCall message sessionPromise s =
     (case toolCall message of
        None \<Rightarrow> s
      | Some functionCalls \<Rightarrow>
          (let toolCalls = map copy_call functionCalls
           in case onToolCall (config s) of
                None \<Rightarrow> s
              | Some dispatch \<Rightarrow>
                  (case dispatch toolCalls of
                     Inl e \<Rightarrow> emit [UnhandledRejection e] s
                   | Inr results \<Rightarrow>
                       (case sessionPromise of
                          Inl e \<Rightarrow> emit [UnhandledRejection e] s
                        | Inr ch \<Rightarrow>
                            (case functionResponses toolCalls results of
                               Inl e \<Rightarrow> emit [UnhandledRejection e] s
                             | Inr responses \<Rightarrow> emit [SendToolResponse responses] s)))))"

text \<open>
  The part of \<open>handleMessage\<close> that runs when the message arrives (steps 1 to 3; the
  chunk of step 1 is still pending), and the whole handler: the pending chunk is
  scheduled once the synchronous part has returned, before the tool responses are sent.
\<close>

definition handleMessage_sync :: "live_message \<Rightarrow> live_session \<Rightarrow> pending_chunk \<times> live_session" where
  "handleMessage_sync message s =
     (case handleAudio message s of
        (p, s1) \<Rightarrow> (p, handleTranscriptions message (handleInterruption message s1)))"

definition handleMessage ::
  "real \<Rightarrow> live_message \<Rightarrow> js_error + channel \<Rightarrow> live_session \<Rightarrow> live_session" where
  "handleMessage t message sessionPromise s =
     (case handleMessage_sync message s of
        (p, s1) \<Rightarrow> handleToolCall message sessionPromise (playAudioChunk_resume t p s1))"

text \<open>
  A step that keeps the configuration and sends no tool response: it only appends events
  of other kinds.
\<close>

fun is_tool_response :: "event \<Rightarrow> bool" where
  "is_tool_response (SendToolResponse rs) = True"
| "is_tool_response e = False"

definition quiet_step :: "live_session \<Rightarrow> live_session \<Rightarrow> bool" where
  "quiet_step s s' =
     (config s' = config s \<and>
      (\<exists>es. events s' = events s @ es \<and> list_all (\<lambda>e. \<not> is_tool_response e) es))"

section \<open>Speech recognition errors (\<open>useSpeech\<close>)\<close>

text \<open>
  The state of the hook and the console. \<open>recognition.onerror\<close> receives an event whose
  \<open>error\<close> field names the kind of error.
\<close>

record speech_state =
  isListening :: bool
  isSpeaking :: bool
  transcript :: string
  supported :: bool
  console :: "(string \<times> string) list"

definition recognition_onerror :: "string \<Rightarrow> speech_state \<Rightarrow> speech_state" where
  "recognition_onerror error s =
     (if error = ''no-speech'' \<or> error = ''aborted''
      then s\<lparr>isListening := False\<rparr>
      else (s\<lparr>console := console s @ [(''Speech recognition error'', error)]\<rparr>)
             \<lparr>isListening := False\<rparr>)"

section \<open>Example sessions\<close>

text \<open>
  Concrete configurations, sessions and messages on which the theorems below are
  instantiated: a session with an output context, a session with two tracked chunks (the
  first has already finished playing), an interruption, and a \<open>set_reminder\<close> tool call
  answered by a dispatcher.
\<close>

definition example_config :: live_config where
  "example_config =
     \<lparr>onToolCall = None, onStateChange = True, onVolumeChange = True, onCaption = True\<rparr>"

definition example_session :: live_session where
  "example_session =
     (new_LiveSession example_config)\<lparr>outputAudioContext := Some (AudioContext 24000)\<rparr>"



definition example_call :: function_call where
  "example_call =
     \<lparr>fc_name = ''set_reminder'',
      fc_args = [(''task'', JString ''call mom''), (''delay_minutes'', JNumber 5)],
      fc_id = ''call-1''\<rparr>"

definition example_dispatch :: "function_call list \<Rightarrow> js_error + js_value list" where
  "example_dispatch toolCalls = Inr (map (\<lambda>tc. JString ''Reminder set for call mom'') toolCalls)"

definition example_tool_session :: live_session where
  "example_tool_session =
     example_session\<lparr>config := example_config\<lparr>onToolCall := Some example_dispatch\<rparr>\<rparr>"

definition example_tool_message :: live_message where
  "example_tool_message = \<lparr>serverContent = None, toolCall = Some [example_call]\<rparr>"

section \<open>Properties of the PCM codec\<close>

subsection \<open>Auxiliary facts\<close>

lemma int16_elements_setInt16:
  "int16_elements (setInt16_le w @ r) = w # int16_elements r"
proof -
  have "word_cat (ucast (drop_bit 8 w) :: byte) (ucast w :: byte) = w"
    by (rule bit_word_eqI) (auto simp: bit_simps)
  then show ?thesis by (simp add: setInt16_le_def)
qed

lemma int16_elements_floatTo16BitPCM:
  "int16_elements (floatTo16BitPCM xs) =
     map (\<lambda>x. toInt16 (scale_sample (clamp_sample x))) xs"
  by (induction xs) (simp_all add: floatTo16BitPCM_def int16_elements_setInt16)

lemma length_floatTo16BitPCM: "length (floatTo16BitPCM xs) = 2 * length xs"
  by (induction xs) (simp_all add: floatTo16BitPCM_def setInt16_le_def)

lemma clamp_sample_range: "- 1 \<le> clamp_sample x \<and> clamp_sample x \<le> 1"
  by (simp add: clamp_sample_def)

lemma quantised_range:
  assumes "- 1 \<le> s" "s \<le> 1"
  shows "- 32768 \<le> js_truncate (scale_sample s)" "js_truncate (scale_sample s) \<le> 32767"
proof -
  show "- 32768 \<le> js_truncate (scale_sample s)"
  proof (cases "s < 0")
    case True
    have "real_of_int (- 32768) \<le> s * 32768" using assms by simp
    then have "- 32768 \<le> \<lceil>s * 32768\<rceil>" by (simp only: le_ceiling_iff) 
    with True show ?thesis by (simp add: js_truncate_def scale_sample_def)
  next
    case False
    then have "0 \<le> \<lfloor>s * 32767\<rfloor>" by simp
    with False show ?thesis
      by (simp add: js_truncate_def scale_sample_def mult_less_0_iff)
  qed
  show "js_truncate (scale_sample s) \<le> 32767"
  proof (cases "s < 0")
    case True
    then have "\<lceil>s * 32768\<rceil> \<le> 0" by (simp add: ceiling_le_iff mult_le_0_iff)
    with True show ?thesis by (simp add: js_truncate_def scale_sample_def)
  next
    case False
    have "\<lfloor>s * 32767\<rfloor> \<le> \<lfloor>32767 :: real\<rfloor>"
      by (rule floor_mono) (use assms in simp)
    then have "\<lfloor>s * 32767\<rfloor> \<le> 32767" by simp
    with False show ?thesis
      by (simp add: js_truncate_def scale_sample_def mult_less_0_iff)
  qed
qed

lemma sint_toInt16:
  assumes "- 1 \<le> s" "s \<le> 1"
  shows "sint (toInt16 (scale_sample s)) = js_truncate (scale_sample s)"
  unfolding toInt16_def using quantised_range[OF assms]
  by (simp add: signed_of_int signed_take_bit_int_eq_self)

lemma quantisation_error:
  assumes "- 1 \<le> s" "s \<le> 1"
  defines "q \<equiv> real_of_int (js_truncate (scale_sample s)) / 32768"
  shows "\<bar>q - s\<bar> < 2 / 32768" and "s < 0 \<Longrightarrow> \<bar>q - s\<bar> < 1 / 32768"
proof -
  have neg: "\<bar>q - s\<bar> < 1 / 32768" if "s < 0"
  proof -
    define c where "c = real_of_int \<lceil>s * 32768\<rceil>"
    have q: "q - s = (c - s * 32768) / 32768"
      using that by (simp add: q_def c_def js_truncate_def scale_sample_def field_simps)
    have "s * 32768 \<le> c" "c < s * 32768 + 1"
      unfolding c_def by linarith+
    then have "\<bar>c - s * 32768\<bar> < 1" by linarith
    then show ?thesis unfolding q by simp
  qed
  then show "s < 0 \<Longrightarrow> \<bar>q - s\<bar> < 1 / 32768" .
  show "\<bar>q - s\<bar> < 2 / 32768"
  proof (cases "s < 0")
    case True
    with neg show ?thesis by simp
  next
    case False
    define f where "f = real_of_int \<lfloor>s * 32767\<rfloor>"
    have q: "q - s = (f - s * 32768) / 32768"
      using False
      by (simp add: q_def f_def js_truncate_def scale_sample_def mult_less_0_iff field_simps)
    have "f \<le> s * 32767" "s * 32767 - 1 < f"
      unfolding f_def by linarith+
    then have "\<bar>f - s * 32768\<bar> < 2" using False assms by linarith
    then show ?thesis unfolding q by simp
  qed
qed

lemma sint16_range: "- 32768 \<le> sint (w :: int16)" "sint (w :: int16) \<le> 32767"
  using sint_ge[of w] sint_lt[of w] by simp_all

lemma length_int16_elements: "length (int16_elements bs) = length bs div 2"
  by (induction bs rule: int16_elements.induct) simp_all

lemma decoded_sample_range:
  "- 1 \<le> real_of_int (sint (w :: int16)) / 32768 \<and> real_of_int (sint w) / 32768 \<le> 32767 / 32768"
proof -
  have "real_of_int (- 32768) \<le> real_of_int (sint w)" "real_of_int (sint w) \<le> real_of_int 32767"
    using sint16_range[of w] by (simp_all only: of_int_le_iff)
  then show ?thesis by simp
qed

subsection \<open>Range of the decoded samples\<close>

text \<open>
  Claim C10. For every byte buffer of even length the PCM16-to-float decoder returns
  \<open>length div 2\<close> samples and each of them lies in \<open>[-1, 32767/32768]\<close>, whatever the
  bytes are; the playback buffer built from them holds exactly these samples (for the
  empty buffer \<open>createBuffer\<close> raises and no playback buffer exists).
\<close>

theorem decoded_samples_in_range:
  assumes "even (length arrayBuffer)"
  shows "\<exists>samples. pcmToFloat32Array arrayBuffer = Inr samples
           \<and> length samples = length arrayBuffer div 2
           \<and> (\<forall>x\<in>set samples. - 1 \<le> x \<and> x \<le> 32767 / 32768)
           \<and> pcmToAudioBuffer arrayBuffer =
               (if arrayBuffer = [] then Inl NotSupportedError
                else Inr \<lparr>channelData = samples, sampleRate = 24000\<rparr>)"
proof -
  let ?samples = "map (\<lambda>w. real_of_int (sint w) / 32768) (int16_elements arrayBuffer)"
  have dec: "pcmToFloat32Array arrayBuffer = Inr ?samples"
    using assms by (simp add: pcmToFloat32Array_def new_Int16Array_def)
  have len: "length ?samples = length arrayBuffer div 2"
    by (simp add: length_int16_elements)
  have range: "\<forall>x\<in>set ?samples. - 1 \<le> x \<and> x \<le> 32767 / 32768"
    using decoded_sample_range by auto
  have "length arrayBuffer div 2 = 0 \<longleftrightarrow> arrayBuffer = []"
    using assms by (cases arrayBuffer) auto
  then have buf: "pcmToAudioBuffer arrayBuffer =
      (if arrayBuffer = [] then Inl NotSupportedError
       else Inr \<lparr>channelData = ?samples, sampleRate = 24000\<rparr>)"
    by (simp add: pcmToAudioBuffer_def dec createBuffer_def length_int16_elements)
  from dec len range buf show ?thesis by blast
qed

theorem decoded_samples_in_range_witness:
  "even (length [0, 128, 255, 127 :: byte]) \<and>
   pcmToAudioBuffer [0, 128, 255, 127] =
     Inr \<lparr>channelData = [- 1, 32767 / 32768], sampleRate = 24000\<rparr>"
proof -
  have ev: "even (length [0, 128, 255, 127 :: byte])" by simp
  have dec: "pcmToFloat32Array [0, 128, 255, 127] = Inr [- 1, 32767 / 32768]"
    by code_simp
  from decoded_samples_in_range[OF ev] dec ev show ?thesis by auto
qed

subsection \<open>Round trip of the samples\<close>

lemma pcm_roundtrip_decoded:
  "pcmToFloat32Array (floatTo16BitPCM xs) =
     Inr (map (\<lambda>x. real_of_int (js_truncate (scale_sample (clamp_sample x))) / 32768) xs)"
proof -
  have "sint (toInt16 (scale_sample (clamp_sample x))) = js_truncate (scale_sample (clamp_sample x))"
    for x
    using clamp_sample_range[of x] by (intro sint_toInt16) simp_all
  then have "real_of_int (sint (toInt16 (scale_sample (clamp_sample x))))
      = real_of_int (js_truncate (scale_sample (clamp_sample x)))" for x
    by (simp only:)
  then show ?thesis
    by (simp add: pcmToFloat32Array_def new_Int16Array_def length_floatTo16BitPCM
        int16_elements_floatTo16BitPCM)
qed

text \<open>
  Claim C3, amended. Encoding any sequence of samples and decoding it gives as many
  samples, each within two quantisation steps of the clamped input (strictly less than
  \<open>2/32768\<close> away), and within one step when the clamped input is negative.
\<close>

theorem pcm16_roundtrip_within_two_steps:
  "\<exists>ys. pcmToFloat32Array (floatTo16BitPCM xs) = Inr ys \<and> length ys = length xs
     \<and> (\<forall>i<length xs.
           \<bar>ys ! i - clamp_sample (xs ! i)\<bar> < 2 / 32768
         \<and> (clamp_sample (xs ! i) < 0 \<longrightarrow> \<bar>ys ! i - clamp_sample (xs ! i)\<bar> < 1 / 32768))"
proof -
  let ?q = "\<lambda>x. real_of_int (js_truncate (scale_sample (clamp_sample x))) / 32768"
  have "\<bar>?q x - clamp_sample x\<bar> < 2 / 32768
      \<and> (clamp_sample x < 0 \<longrightarrow> \<bar>?q x - clamp_sample x\<bar> < 1 / 32768)" for x
    using clamp_sample_range[of x] quantisation_error[of "clamp_sample x"] by blast
  then show ?thesis
    by (intro exI[of _ "map ?q xs"]) (simp add: pcm_roundtrip_decoded)
qed

theorem pcm16_roundtrip_within_two_steps_witness:
  "pcmToFloat32Array (floatTo16BitPCM [49153 / 65536, - 1 / 2]) = Inr [24575 / 32768, - 1 / 2]
   \<and> \<bar>24575 / 32768 - clamp_sample (49153 / 65536)\<bar> < 2 / 32768
   \<and> clamp_sample (- 1 / 2) < 0
   \<and> \<bar>- 1 / 2 - clamp_sample (- 1 / 2)\<bar> < 1 / 32768"
proof -
  have dec: "pcmToFloat32Array (floatTo16BitPCM [49153 / 65536, - 1 / 2])
      = Inr [24575 / 32768, - 1 / 2]"
    by code_simp
  have neg: "clamp_sample (- 1 / 2) < 0" by (simp add: clamp_sample_def)
  from pcm16_roundtrip_within_two_steps[of "[49153 / 65536, - 1 / 2]"]
  obtain ys where ys: "pcmToFloat32Array (floatTo16BitPCM [49153 / 65536, - 1 / 2]) = Inr ys"
    "\<forall>i<length [49153 / 65536, - 1 / 2 :: real].
           \<bar>ys ! i - clamp_sample ([49153 / 65536, - 1 / 2] ! i)\<bar> < 2 / 32768
         \<and> (clamp_sample ([49153 / 65536, - 1 / 2] ! i) < 0 \<longrightarrow>
              \<bar>ys ! i - clamp_sample ([49153 / 65536, - 1 / 2] ! i)\<bar> < 1 / 32768)"
    by blast
  from ys(1) dec have eq: "ys = [24575 / 32768, - 1 / 2]" by simp
  have "\<bar>ys ! 0 - clamp_sample ([49153 / 65536, - 1 / 2] ! 0)\<bar> < 2 / 32768"
    using ys(2)[THEN spec, of 0] by simp
  moreover have "clamp_sample ([49153 / 65536, - 1 / 2] ! 1) < 0 \<longrightarrow>
         \<bar>ys ! 1 - clamp_sample ([49153 / 65536, - 1 / 2] ! 1)\<bar> < 1 / 32768"
    using ys(2)[THEN spec, of 1] by simp
  ultimately show ?thesis using dec neg unfolding eq by simp
qed

text \<open>
  The claim as stated, with one quantisation step, fails: the sample \<open>49153/65536\<close> (a
  float32 value) is encoded as \<open>24575\<close> and decoded as \<open>24575/32768\<close>, one and a half
  steps below the input.
\<close>

theorem pcm16_roundtrip_counterexample:
  "pcmToFloat32Array (floatTo16BitPCM [49153 / 65536]) = Inr [24575 / 32768] \<and>
   \<not> \<bar>24575 / 32768 - clamp_sample (49153 / 65536)\<bar> \<le> 1 / 32768"
proof -
  have "pcmToFloat32Array (floatTo16BitPCM [49153 / 65536]) = Inr [24575 / 32768]"
    by code_simp
  moreover have "\<not> \<bar>24575 / 32768 - clamp_sample (49153 / 65536)\<bar> \<le> 1 / 32768"
    by (simp add: clamp_sample_def)
  ultimately show ?thesis by simp
qed

section \<open>Properties of the transport encoding\<close>

subsection \<open>Auxiliary facts\<close>

lemma alphabet_values: "map base64_value base64_alphabet = map Some [0..<64]"
  by code_simp

lemma alphabet_clean:
  "list_all (\<lambda>c. \<not> ascii_whitespace c \<and> c \<noteq> CHR ''='') base64_alphabet"
  by code_simp

lemma length_alphabet: "length base64_alphabet = 64"
  by (simp add: base64_alphabet_def)

lemma base64_value_char: "i < 64 \<Longrightarrow> base64_value (base64_char i) = Some i"
proof -
  assume i: "i < 64"
  have "map base64_value base64_alphabet ! i = map Some [0..<64] ! i"
    by (simp only: alphabet_values)
  with i show ?thesis
    by (simp add: base64_char_def length_alphabet del: upt_Suc)
qed

lemma base64_char_clean:
  "i < 64 \<Longrightarrow> \<not> ascii_whitespace (base64_char i) \<and> base64_char i \<noteq> CHR ''=''"
  using alphabet_clean
  by (simp add: list_all_length base64_char_def length_alphabet)

lemma recombine: "(x::nat) div (k * 64) * 64 + x div k mod 64 = x div k"
  by (simp add: div_mult2_eq)

lemma sextets4:
  "((n div 262144 * 64 + n div 4096 mod 64) * 64 + n div 64 mod 64) * 64 + n mod 64 = (n::nat)"
proof -
  have 1: "n div 262144 * 64 + n div 4096 mod 64 = n div 4096"
    using recombine[of n 4096] by simp
  have 2: "n div 4096 * 64 + n div 64 mod 64 = n div 64"
    using recombine[of n 64] by simp
  show ?thesis by (simp only: 1 2 div_mult_mod_eq)
qed

lemma sextets3:
  "(n div 4096 * 64 + n div 64 mod 64) * 64 + n mod 64 = (n::nat)"
proof -
  have 2: "n div 4096 * 64 + n div 64 mod 64 = n div 64"
    using recombine[of n 64] by simp
  show ?thesis by (simp only: 2 div_mult_mod_eq)
qed

lemma sextets2: "n div 64 * 64 + n mod 64 = (n::nat)"
  by (rule div_mult_mod_eq)

lemma split3:
  fixes a b c :: nat
  assumes "a < 256" "b < 256" "c < 256"
  shows "((a * 256 + b) * 256 + c) div 65536 mod 256 = a"
    and "((a * 256 + b) * 256 + c) div 256 mod 256 = b"
    and "((a * 256 + b) * 256 + c) mod 256 = c"
proof -
  have 2: "((a * 256 + b) * 256 + c) div 256 = a * 256 + b"
    using assms by simp
  have 3: "(a * 256 + b) div 256 = a"
    using assms by simp
  show "((a * 256 + b) * 256 + c) mod 256 = c"
    using assms(3) by (simp only: mod_mult_self3 mod_less)
  show "((a * 256 + b) * 256 + c) div 256 mod 256 = b"
    using assms(2) by (simp only: 2 mod_mult_self3 mod_less)
  have "((a * 256 + b) * 256 + c) div 65536 = ((a * 256 + b) * 256 + c) div 256 div 256"
    by (simp add: div_mult2_eq)
  then show "((a * 256 + b) * 256 + c) div 65536 mod 256 = a"
    using assms(1) by (simp only: 2 3 mod_less)
qed

lemma split2:
  fixes a b :: nat
  assumes "a < 256" "b < 256"
  shows "(a * 256 + b) * 4 div 4 div 256 mod 256 = a"
    and "(a * 256 + b) * 4 div 4 mod 256 = b"
proof -
  have 1: "(a * 256 + b) * 4 div 4 = a * 256 + b" by simp
  have 3: "(a * 256 + b) div 256 = a"
    using assms by simp
  show "(a * 256 + b) * 4 div 4 div 256 mod 256 = a"
    using assms(1) by (simp only: 1 3 mod_less)
  show "(a * 256 + b) * 4 div 4 mod 256 = b"
    using assms(2) by (simp only: 1 mod_mult_self3 mod_less)
qed

lemma split1:
  fixes a :: nat
  assumes "a < 256"
  shows "a * 16 div 16 mod 256 = a"
  using assms by simp

lemma encode_groups_bound:
  "\<forall>x\<in>set ns. x < 256 \<Longrightarrow> \<forall>v\<in>set (encode_groups ns). v < 64"
proof (induction ns rule: encode_groups.induct)
  case (1 a b c rest)
  have "((a * 256 + b) * 256 + c) div 262144 < 64" using 1(2) 
    by (simp add: less_mult_imp_div_less)
  with 1 show ?case by (simp add: Let_def)
next
  case (2 a b)
  have "(a * 256 + b) * 4 div 4096 < 64" using 2 by (simp add: less_mult_imp_div_less)
  then show ?case by (simp add: Let_def)
next
  case (3 a)
  have "a * 16 div 64 < 64" using 3 by (simp add: less_mult_imp_div_less)
  then show ?case by simp
qed simp

lemma decode_encode_groups:
  "\<forall>x\<in>set ns. x < 256 \<Longrightarrow> decode_groups (encode_groups ns) = ns"
proof (induction ns rule: encode_groups.induct)
  case (1 a b c rest)
  have lt: "a < 256" "b < 256" "c < 256" and rest: "\<forall>x\<in>set rest. x < 256"
    using 1(2) by simp_all
  have "decode_groups (encode_groups (a # b # c # rest)) =
        [a, b, c] @ decode_groups (encode_groups rest)"
    by (simp only: encode_groups.simps decode_groups.simps Let_def append_Cons append_Nil
        sextets4 split3[OF lt])
  with 1(1)[OF refl rest] show ?case by simp
next
  case (2 a b)
  have lt: "a < 256" "b < 256" using 2 by simp_all
  show ?case
    by (simp only: encode_groups.simps decode_groups.simps Let_def sextets3 split2[OF lt])
next
  case (3 a)
  have lt: "a < 256" using 3 by simp
  show ?case
    by (simp only: encode_groups.simps decode_groups.simps Let_def sextets2 split1[OF lt])
qed simp

lemma length_encode_groups:
  "length (encode_groups ns) = 4 * (length ns div 3) + (if length ns mod 3 = 0 then 0 else length ns mod 3 + 1)"
  by (induction ns rule: encode_groups.induct) (simp_all add: Let_def)

lemma of_char_less_256: "(of_char c :: nat) < 256"
proof -
  have "(of_char c :: nat) mod 256 < 256" by simp
  then show ?thesis by (simp only: of_char_mod_256)
qed

lemma all_values_chars:
  "\<forall>v\<in>set vs. v < 64 \<Longrightarrow> all_values (map base64_char vs) = Some vs"
  by (induction vs) (simp_all add: base64_value_char)

lemma filter_body:
  assumes "\<forall>v\<in>set vs. v < 64"
  shows "filter (\<lambda>c. \<not> ascii_whitespace c) (map base64_char vs @ padding n)
         = map base64_char vs @ padding n"
proof -
  have "\<not> ascii_whitespace (CHR ''='')" by (simp add: ascii_whitespace_def)
  then have "\<forall>c\<in>set (map base64_char vs @ padding n). \<not> ascii_whitespace c"
    using assms base64_char_clean by (auto simp: padding_def)
  then show ?thesis by simp
qed

lemma remove_padding_body:
  assumes vs: "\<forall>v\<in>set vs. v < 64"
    and len: "length vs = 4 * (n div 3) + (if n mod 3 = 0 then 0 else n mod 3 + 1)"
  shows "remove_padding (map base64_char vs @ padding n) = map base64_char vs"
proof -
  let ?body = "map base64_char vs"
  have last_body: "?body \<noteq> [] \<Longrightarrow> last ?body \<noteq> CHR ''=''"
    using vs base64_char_clean by (simp add: last_map)
  consider "n mod 3 = 0" | "n mod 3 = 1" | "n mod 3 = 2" by linarith
  then show ?thesis
  proof cases
    case 1
    then have pad: "padding n = []" by (simp add: padding_def)
    show ?thesis using last_body by (auto simp: pad remove_padding_def)
  next
    case 2
    then have pad: "padding n = [CHR ''='', CHR ''='']"
      by (simp add: padding_def numeral_2_eq_2)
    have "length (?body @ padding n) mod 4 = 0" using 2 len by (simp add: pad)
    then show ?thesis by (simp add: pad remove_padding_def butlast_append)
  next
    case 3
    then have pad: "padding n = [CHR ''='']"
      by (simp add: padding_def)
    have ne: "?body \<noteq> []" using 3 len by auto
    have "length (?body @ padding n) mod 4 = 0" using 3 len by (simp add: pad)
    then show ?thesis using last_body[OF ne] ne
      by (simp add: pad remove_padding_def butlast_append)
  qed
qed

lemma atob_btoa: "atob (btoa s) = Some s"
proof -
  let ?ns = "map of_char s :: nat list"
  let ?vs = "encode_groups ?ns"
  have ns: "\<forall>x\<in>set ?ns. x < 256" using of_char_less_256 by simp
  have vs: "\<forall>v\<in>set ?vs. v < 64" by (rule encode_groups_bound[OF ns])
  have len: "length ?vs = 4 * (length s div 3)
       + (if length s mod 3 = 0 then 0 else length s mod 3 + 1)"
    using length_encode_groups[of ?ns] by simp
  have d: "remove_padding (filter (\<lambda>c. \<not> ascii_whitespace c) (btoa s)) = map base64_char ?vs"
    unfolding btoa_def by (simp only: filter_body[OF vs] remove_padding_body[OF vs len])
  have m4: "length (map base64_char ?vs) mod 4 \<noteq> 1"
    using len by (simp split: if_splits)
  have dec: "map char_of (decode_groups ?vs) = s"
    by (simp add: decode_encode_groups[OF ns] comp_def)
  show ?thesis
    unfolding atob_def using m4 dec by (simp add: d Let_def all_values_chars[OF vs])
qed

lemma byte_char_roundtrip: "word_of_nat (of_char (char_of (unat b))) = (b :: byte)"
proof -
  have "unat b < 256" using unsigned_less[of b, where 'a=nat] by simp
  then show ?thesis by simp
qed

subsection \<open>Round trip\<close>

text \<open>
  Claim C7. Encoding any byte buffer with \<open>arrayBufferToBase64\<close> and decoding the text
  with \<open>base64ToArrayBuffer\<close> gives back the buffer, byte for byte, and the decoder
  does not raise.
\<close>

theorem base64_bytes_roundtrip:
  "base64ToArrayBuffer (arrayBufferToBase64 buffer) = Inr buffer"
proof -
  have "map (\<lambda>c. word_of_nat (of_char c) :: byte) (map (\<lambda>b. char_of (unat b)) buffer) = buffer"
    by (induction buffer) (simp_all add: byte_char_roundtrip del: of_char_of)
  then show ?thesis
    by (simp add: base64ToArrayBuffer_def arrayBufferToBase64_def atob_btoa)
qed

section \<open>Properties of the speech helper\<close>

text \<open>
  Claim C9. Whatever the error kind, the listening flag is false afterwards. For
  \<open>no-speech\<close> and \<open>aborted\<close> nothing else changes: nothing is logged. For every other
  kind exactly one entry, naming the error, is added to the console.
\<close>

theorem recognition_error_handling:
  "isListening (recognition_onerror error s) = False \<and>
   (error = ''no-speech'' \<or> error = ''aborted'' \<longrightarrow>
      recognition_onerror error s = s\<lparr>isListening := False\<rparr>) \<and>
   (error \<noteq> ''no-speech'' \<and> error \<noteq> ''aborted'' \<longrightarrow>
      console (recognition_onerror error s) = console s @ [(''Speech recognition error'', error)])"
  by (simp add: recognition_onerror_def)

theorem recognition_error_handling_witness:
  "recognition_onerror ''no-speech''
     \<lparr>isListening = True, isSpeaking = False, transcript = ''hi'', supported = True, console = []\<rparr>
   = \<lparr>isListening = False, isSpeaking = False, transcript = ''hi'', supported = True, console = []\<rparr>
   \<and> console (recognition_onerror ''network''
     \<lparr>isListening = True, isSpeaking = False, transcript = ''hi'', supported = True, console = []\<rparr>)
   = [(''Speech recognition error'', ''network'')]"
  using recognition_error_handling[of "''no-speech''"
      "\<lparr>isListening = True, isSpeaking = False, transcript = ''hi'', supported = True, console = []\<rparr>"]
    recognition_error_handling[of "''network''"
      "\<lparr>isListening = True, isSpeaking = False, transcript = ''hi'', supported = True, console = []\<rparr>"]
  by simp

section \<open>Properties of the playback scheduler\<close>

subsection \<open>Auxiliary facts\<close>

lemma duration_nonneg: "0 \<le> duration b"
  by (simp add: duration_def)

lemma length_stop_source: "length (stop_source i ns) = length ns"
  by (simp add: stop_source_def split: sum.splits)

lemma length_fold_stop_source: "length (fold stop_source is ns) = length ns"
  by (induction "is" arbitrary: ns) (simp_all add: length_stop_source)

lemma playAudioChunk_split:
  "playAudioChunk t a s =
     (case playAudioChunk_begin a s of (p, s1) \<Rightarrow> playAudioChunk_resume t p s1)"
  by (simp add: playAudioChunk_def playAudioChunk_begin_def playAudioChunk_resume_def
      playAudioChunk_try_def catch_chunk_error_def split: option.splits sum.splits)

text \<open>What one scheduling step does when the context exists and the start time is not negative.\<close>

lemma schedule_chunk_ok:
  assumes "outputAudioContext s = Some ctx" "0 \<le> t \<or> 0 \<le> nextStartTime s"
  defines "start \<equiv> (if nextStartTime s < t then t else nextStartTime s)"
  shows "\<exists>s'. schedule_chunk t b s = (None, s')
           \<and> nodes s' = nodes s @ [\<lparr>node_buffer = b, node_start = Some start,
                                     node_stopped = False, node_ended = False\<rparr>]
           \<and> nextStartTime s' = start + duration b
           \<and> scheduledSources s' = set_add (length (nodes s)) (scheduledSources s)"
  using assms(1,2)
  by (auto simp: schedule_chunk_def Let_def source_start_def start_def notify_def emit_def)


lemma started_chunks_append:
  "started_chunks (xs @ ys) = started_chunks xs @ started_chunks ys"
  by (induction xs) (simp_all split: option.splits)

lemma schedule_chunk_step:
  "\<exists>new. nodes (snd (schedule_chunk t b s)) = nodes s @ new
     \<and> nextStartTime s \<le> nextStartTime (snd (schedule_chunk t b s))
     \<and> (started_chunks new = [] \<or>
        (\<exists>st d. started_chunks new = [(st, d)] \<and> nextStartTime s \<le> st \<and> 0 \<le> d
            \<and> st + d = nextStartTime (snd (schedule_chunk t b s))))"
proof (cases "outputAudioContext s")
  case None
  then show ?thesis by (simp add: schedule_chunk_def)
next
  case (Some ctx)
  let ?start = "if nextStartTime s < t then t else nextStartTime s"
  let ?source = "\<lparr>node_buffer = b, node_start = None, node_stopped = False, node_ended = False\<rparr>"
  show ?thesis
  proof (cases "source_start ?start ?source")
    case (Inl e)
    with Some have "nodes (snd (schedule_chunk t b s)) = nodes s @ [?source]"
      and "nextStartTime (snd (schedule_chunk t b s)) = ?start"
      by (auto simp: schedule_chunk_def Let_def)
    then show ?thesis by (intro exI[of _ "[?source]"]) simp
  next
    case (Inr started)
    then have st: "started = ?source\<lparr>node_start := Some ?start\<rparr>"
      by (auto simp: source_start_def split: if_splits)
    from Some Inr have "nodes (snd (schedule_chunk t b s)) = nodes s @ [started]"
      and "nextStartTime (snd (schedule_chunk t b s)) = ?start + duration b"
      by (auto simp: schedule_chunk_def Let_def notify_def emit_def)
    then show ?thesis using duration_nonneg[of b]
      by (intro exI[of _ "[started]"]) (simp add: st)
  qed
qed

lemma catch_chunk_error_fields:
  "nodes (catch_chunk_error r) = nodes (snd r)"
  "nextStartTime (catch_chunk_error r) = nextStartTime (snd r)"
  "scheduledSources (catch_chunk_error r) = scheduledSources (snd r)"
  "config (catch_chunk_error r) = config (snd r)"
  by (simp_all add: catch_chunk_error_def log_chunk_error_def emit_def split: prod.splits option.splits)

lemma playAudioChunk_step:
  "\<exists>new. nodes (playAudioChunk t a s) = nodes s @ new
     \<and> nextStartTime s \<le> nextStartTime (playAudioChunk t a s)
     \<and> (started_chunks new = [] \<or>
        (\<exists>st d. started_chunks new = [(st, d)] \<and> nextStartTime s \<le> st \<and> 0 \<le> d
            \<and> st + d = nextStartTime (playAudioChunk t a s)))"
proof -
  have "(nodes (playAudioChunk t a s) = nodes s
          \<and> nextStartTime (playAudioChunk t a s) = nextStartTime s)
      \<or> (\<exists>b. nodes (playAudioChunk t a s) = nodes (snd (schedule_chunk t b s))
          \<and> nextStartTime (playAudioChunk t a s) = nextStartTime (snd (schedule_chunk t b s)))"
  proof (cases "outputAudioContext s")
    case None
    then show ?thesis by (simp add: playAudioChunk_def)
  next
    case (Some ctx)
    show ?thesis
    proof (cases "base64ToArrayBuffer a")
      case (Inl e)
      with Some show ?thesis
        by (simp add: playAudioChunk_def playAudioChunk_try_def catch_chunk_error_fields)
    next
      case (Inr bytes)
      show ?thesis
      proof (cases "pcmToAudioBuffer bytes")
        case (Inl e)
        with Some Inr show ?thesis
          by (simp add: playAudioChunk_def playAudioChunk_try_def catch_chunk_error_fields)
      next
        case buf: (Inr b)
        with Some Inr have "nodes (playAudioChunk t a s) = nodes (snd (schedule_chunk t b s))"
          "nextStartTime (playAudioChunk t a s) = nextStartTime (snd (schedule_chunk t b s))"
          by (simp_all add: playAudioChunk_def playAudioChunk_try_def catch_chunk_error_fields)
        then show ?thesis by blast
      qed
    qed
  qed
  then show ?thesis
  proof
    assume "nodes (playAudioChunk t a s) = nodes s
          \<and> nextStartTime (playAudioChunk t a s) = nextStartTime s"
    then show ?thesis by (intro exI[of _ "[]"]) simp
  next
    assume "\<exists>b. nodes (playAudioChunk t a s) = nodes (snd (schedule_chunk t b s))
          \<and> nextStartTime (playAudioChunk t a s) = nextStartTime (snd (schedule_chunk t b s))"
    then obtain b where "nodes (playAudioChunk t a s) = nodes (snd (schedule_chunk t b s))"
      "nextStartTime (playAudioChunk t a s) = nextStartTime (snd (schedule_chunk t b s))"
      by blast
    then show ?thesis using schedule_chunk_step[of t b s] by simp
  qed
qed

lemma back_to_back_Cons:
  assumes "back_to_back rest" "\<forall>(st, d)\<in>set rest. s0 + d0 \<le> st"
  shows "back_to_back ((s0, d0) # rest)"
  using assms by (cases rest) auto

lemma back_to_back_sorted:
  "back_to_back xs \<Longrightarrow> \<forall>(st, d)\<in>set xs. 0 \<le> d \<Longrightarrow> sorted (map fst xs)"
proof (induction xs rule: back_to_back.induct)
  case (1 s1 d1 s2 d2 rest)
  then have "sorted (map fst ((s2, d2) # rest))" by simp
  moreover have "s1 \<le> s2" using 1(2,3) by simp
  ultimately show ?case by fastforce
qed simp_all

lemma enqueue_all_schedule:
  "\<exists>new. nodes (enqueue_all chunks s) = nodes s @ new
     \<and> nextStartTime s \<le> nextStartTime (enqueue_all chunks s)
     \<and> back_to_back (started_chunks new)
     \<and> (\<forall>(st, d)\<in>set (started_chunks new).
          nextStartTime s \<le> st \<and> 0 \<le> d \<and> st + d \<le> nextStartTime (enqueue_all chunks s))"
proof (induction chunks arbitrary: s)
  case Nil
  show ?case by (intro exI[of _ "[]"]) simp
next
  case (Cons c chunks)
  obtain t a where c: "c = (t, a)" by (cases c)
  let ?s1 = "playAudioChunk t a s"
  let ?s2 = "enqueue_all chunks ?s1"
  obtain n1 where n1: "nodes ?s1 = nodes s @ n1" "nextStartTime s \<le> nextStartTime ?s1"
    "started_chunks n1 = [] \<or>
       (\<exists>st d. started_chunks n1 = [(st, d)] \<and> nextStartTime s \<le> st \<and> 0 \<le> d
            \<and> st + d = nextStartTime ?s1)"
    using playAudioChunk_step[of t a s] by blast
  obtain n2 where n2: "nodes ?s2 = nodes ?s1 @ n2" "nextStartTime ?s1 \<le> nextStartTime ?s2"
    "back_to_back (started_chunks n2)"
    "\<forall>(st, d)\<in>set (started_chunks n2).
          nextStartTime ?s1 \<le> st \<and> 0 \<le> d \<and> st + d \<le> nextStartTime ?s2"
    using Cons.IH[of ?s1] by blast
  have nodes: "nodes (enqueue_all (c # chunks) s) = nodes s @ (n1 @ n2)"
    by (simp add: c n1(1) n2(1))
  have cursor: "nextStartTime s \<le> nextStartTime (enqueue_all (c # chunks) s)"
    using n1(2) n2(2) by (simp add: c)
  have rest: "\<forall>(st, d)\<in>set (started_chunks n2).
          nextStartTime s \<le> st \<and> 0 \<le> d \<and> st + d \<le> nextStartTime ?s2"
    using n2(4) n1(2) by fastforce
  from n1(3) have "back_to_back (started_chunks (n1 @ n2))
     \<and> (\<forall>(st, d)\<in>set (started_chunks (n1 @ n2)).
          nextStartTime s \<le> st \<and> 0 \<le> d \<and> st + d \<le> nextStartTime ?s2)"
  proof
    assume "started_chunks n1 = []"
    then show ?thesis using n2(3) rest by (simp add: started_chunks_append)
  next
    assume "\<exists>st d. started_chunks n1 = [(st, d)] \<and> nextStartTime s \<le> st \<and> 0 \<le> d
            \<and> st + d = nextStartTime ?s1"
    then obtain st d where sd: "started_chunks n1 = [(st, d)]" "nextStartTime s \<le> st" "0 \<le> d"
      "st + d = nextStartTime ?s1" by blast
    have "\<forall>(st', d')\<in>set (started_chunks n2). st + d \<le> st'"
      using n2(4) sd(4) by fastforce
    then have "back_to_back ((st, d) # started_chunks n2)"
      using n2(3) by (rule back_to_back_Cons[rotated])
    moreover have "st + d \<le> nextStartTime ?s2" using sd(4) n2(2) by simp
    ultimately show ?thesis using rest sd by (simp add: started_chunks_append)
  qed
  with nodes cursor show ?case
    by (intro exI[of _ "n1 @ n2"]) (simp add: c)
qed

lemma example_decode:
  "base64ToArrayBuffer ''AAA='' = Inr [0, 0]"
  "pcmToAudioBuffer [0, 0] = Inr \<lparr>channelData = [0], sampleRate = 24000\<rparr>"
proof -
  have "atob ''AAA='' = Some [CHR 0x00, CHR 0x00]" by code_simp
  then show "base64ToArrayBuffer ''AAA='' = Inr [0, 0]"
    by (simp add: base64ToArrayBuffer_def)
  have "pcmToFloat32Array [0, 0] = Inr [0]" by code_simp
  then show "pcmToAudioBuffer [0, 0] = Inr \<lparr>channelData = [0], sampleRate = 24000\<rparr>"
    by (simp add: pcmToAudioBuffer_def createBuffer_def)
qed


lemma example_duration: "duration \<lparr>channelData = [0], sampleRate = 24000\<rparr> = 1 / 24000"
  by (simp add: duration_def)

lemma example_chunk:
  "playAudioChunk 1 ''AAA='' example_session =
     example_session
       \<lparr>nextStartTime := 1 + 1 / 24000,
        scheduledSources := [0],
        nodes := [\<lparr>node_buffer = \<lparr>channelData = [0], sampleRate = 24000\<rparr>,
                   node_start = Some 1, node_stopped = False, node_ended = False\<rparr>],
        events := [VolumeChange 0 0.4, SetTimeout (1 / 24) (VolumeChange 0 0)]\<rparr>"
  by (simp add: playAudioChunk_def playAudioChunk_try_def example_decode schedule_chunk_def
      example_session_def new_LiveSession_def example_config_def source_start_def Let_def
      set_add_def notify_def emit_def catch_chunk_error_def example_duration)

subsection \<open>Scheduling, flush and failed chunks\<close>

text \<open>
  Claim C2. For any sequence of chunks enqueued at any device times, from any state: the
  start times of the chunks scheduled by the sequence are non-decreasing, and each chunk
  starts no earlier than the end of the chunk scheduled before it (the gap is never
  negative, there is no overlap). For one chunk that decodes, enqueued at device time
  \<open>t\<close>: when the cursor has not starved (\<open>t\<close> is not beyond it) the chunk starts
  exactly at the cursor, that is at the end of the previous chunk; when it has starved,
  the chunk starts at \<open>t\<close>; in both cases the cursor moves to the start plus the duration.
\<close>

theorem playback_starts_monotone:
  "(let new = started_chunks (drop (length (nodes s)) (nodes (enqueue_all chunks s)))
    in sorted (map fst new) \<and> back_to_back new \<and> (\<forall>(start, d)\<in>set new. nextStartTime s \<le> start))
   \<and> (0 \<le> t \<and> outputAudioContext s \<noteq> None \<and> base64ToArrayBuffer a = Inr bytes
        \<and> pcmToAudioBuffer bytes = Inr b \<longrightarrow>
       started_chunks (drop (length (nodes s)) (nodes (playAudioChunk t a s)))
         = [(if nextStartTime s < t then t else nextStartTime s, duration b)]
       \<and> nextStartTime (playAudioChunk t a s)
         = (if nextStartTime s < t then t else nextStartTime s) + duration b)"
proof (intro conjI impI)
  obtain new where new: "nodes (enqueue_all chunks s) = nodes s @ new"
    "back_to_back (started_chunks new)"
    "\<forall>(st, d)\<in>set (started_chunks new).
          nextStartTime s \<le> st \<and> 0 \<le> d \<and> st + d \<le> nextStartTime (enqueue_all chunks s)"
    using enqueue_all_schedule[of chunks s] by blast
  have "sorted (map fst (started_chunks new))"
    using new(2,3) by (intro back_to_back_sorted) auto
  then show "let new = started_chunks (drop (length (nodes s)) (nodes (enqueue_all chunks s)))
    in sorted (map fst new) \<and> back_to_back new \<and> (\<forall>(start, d)\<in>set new. nextStartTime s \<le> start)"
    using new by (auto simp: Let_def)
next
  assume h: "0 \<le> t \<and> outputAudioContext s \<noteq> None \<and> base64ToArrayBuffer a = Inr bytes
        \<and> pcmToAudioBuffer bytes = Inr b"
  then obtain ctx where ctx: "outputAudioContext s = Some ctx" by auto
  from h have "0 \<le> t \<or> 0 \<le> nextStartTime s" by simp
  from schedule_chunk_ok[OF ctx this, of b] obtain s' where
    s': "schedule_chunk t b s = (None, s')"
      "nodes s' = nodes s @ [\<lparr>node_buffer = b,
          node_start = Some (if nextStartTime s < t then t else nextStartTime s),
          node_stopped = False, node_ended = False\<rparr>]"
      "nextStartTime s' = (if nextStartTime s < t then t else nextStartTime s) + duration b"
    by blast
  have play: "playAudioChunk t a s = s'"
    using h ctx s'(1) by (simp add: playAudioChunk_def playAudioChunk_try_def catch_chunk_error_def)
  show "started_chunks (drop (length (nodes s)) (nodes (playAudioChunk t a s)))
         = [(if nextStartTime s < t then t else nextStartTime s, duration b)]"
    by (simp add: play s'(2))
  show "nextStartTime (playAudioChunk t a s)
         = (if nextStartTime s < t then t else nextStartTime s) + duration b"
    by (simp add: play s'(3))
qed

lemma example_run:
  "started_chunks (drop (length (nodes example_session))
      (nodes (enqueue_all [(1, ''AAA=''), (1, ''AAA=''), (7, ''AAA='')] example_session)))
   = [(1, 1 / 24000), (1 + 1 / 24000, 1 / 24000), (7, 1 / 24000)]"
  by (simp add: playAudioChunk_def playAudioChunk_try_def example_decode schedule_chunk_def
      example_session_def new_LiveSession_def example_config_def source_start_def Let_def
      set_add_def notify_def emit_def catch_chunk_error_def example_duration)

theorem playback_starts_monotone_witness:
  "0 \<le> (1 :: real) \<and> outputAudioContext example_session \<noteq> None
   \<and> base64ToArrayBuffer ''AAA='' = Inr [0, 0]
   \<and> pcmToAudioBuffer [0, 0] = Inr \<lparr>channelData = [0], sampleRate = 24000\<rparr>
   \<and> nextStartTime (playAudioChunk 1 ''AAA='' example_session) = 1 + 1 / 24000
   \<and> back_to_back [(1, 1 / 24000), (1 + 1 / 24000, 1 / 24000), (7, 1 / 24000)]
   \<and> sorted (map fst [(1 :: real, 1 / 24000 :: real), (1 + 1 / 24000, 1 / 24000), (7, 1 / 24000)])"
proof -
  have ctx: "outputAudioContext example_session \<noteq> None"
    by (simp add: example_session_def)
  have cur: "nextStartTime example_session = 0"
    by (simp add: example_session_def new_LiveSession_def)
  note dur = example_duration
  from playback_starts_monotone[of example_session
      "[(1, ''AAA=''), (1, ''AAA=''), (7, ''AAA='')]" 1 "''AAA=''" "[0, 0]"
      "\<lparr>channelData = [0], sampleRate = 24000\<rparr>"]
  show ?thesis
    unfolding example_run Let_def using ctx example_decode by (simp add: cur dur)
qed

text \<open>
  Claim C5. After \<open>stopAudioPlayback\<close> (the flush, which zeroes the cursor), a chunk that
  decodes and is enqueued at device time \<open>t\<close> is started at \<open>max 0 t\<close>, which is not
  before \<open>t\<close>; it is the only tracked chunk.
\<close>

theorem flush_then_enqueue_not_in_past:
  assumes "outputAudioContext s = Some ctx" "base64ToArrayBuffer a = Inr bytes"
    "pcmToAudioBuffer bytes = Inr b"
  shows "\<exists>n start. nodes (playAudioChunk t a (stopAudioPlayback s)) = nodes (stopAudioPlayback s) @ [n]
           \<and> node_buffer n = b \<and> node_start n = Some start \<and> start = max 0 t \<and> t \<le> start
           \<and> scheduledSources (playAudioChunk t a (stopAudioPlayback s)) = [length (nodes s)]
           \<and> nextStartTime (playAudioChunk t a (stopAudioPlayback s)) = start + duration b"
proof -
  let ?f = "stopAudioPlayback s"
  have ctx: "outputAudioContext ?f = Some ctx" and cur: "nextStartTime ?f = 0"
    and tr: "scheduledSources ?f = []" and len: "length (nodes ?f) = length (nodes s)"
    using assms(1) by (simp_all add: stopAudioPlayback_def length_fold_stop_source)
  have "0 \<le> t \<or> 0 \<le> nextStartTime ?f" by (simp add: cur)
  from schedule_chunk_ok[OF ctx this, of b] obtain s' where
    s': "schedule_chunk t b ?f = (None, s')"
      "nodes s' = nodes ?f @ [\<lparr>node_buffer = b,
          node_start = Some (if nextStartTime ?f < t then t else nextStartTime ?f),
          node_stopped = False, node_ended = False\<rparr>]"
      "nextStartTime s' = (if nextStartTime ?f < t then t else nextStartTime ?f) + duration b"
      "scheduledSources s' = set_add (length (nodes ?f)) (scheduledSources ?f)"
    by blast
  have play: "playAudioChunk t a ?f = s'"
    using assms(2,3) ctx s'(1)
    by (simp add: playAudioChunk_def playAudioChunk_try_def catch_chunk_error_def)
  show ?thesis
    unfolding play s'(2,3,4) cur tr len
    by (intro exI[of _ "\<lparr>node_buffer = b, node_start = Some (if 0 < t then t else 0),
          node_stopped = False, node_ended = False\<rparr>"] exI[of _ "max 0 t"])
       (auto simp: set_add_def max_def)
qed

theorem flush_then_enqueue_not_in_past_witness:
  "outputAudioContext (playAudioChunk 1 ''AAA='' example_session) = Some (AudioContext 24000)
   \<and> base64ToArrayBuffer ''AAA='' = Inr [0, 0]
   \<and> pcmToAudioBuffer [0, 0] = Inr \<lparr>channelData = [0], sampleRate = 24000\<rparr>
   \<and> started_chunks (drop 1 (nodes (playAudioChunk 3 ''AAA=''
         (stopAudioPlayback (playAudioChunk 1 ''AAA='' example_session))))) = [(3, 1 / 24000)]
   \<and> scheduledSources (playAudioChunk 3 ''AAA=''
         (stopAudioPlayback (playAudioChunk 1 ''AAA='' example_session))) = [1]"
proof -
  let ?s = "playAudioChunk 1 ''AAA='' example_session"
  have ctx: "outputAudioContext ?s = Some (AudioContext 24000)"
    unfolding example_chunk by (simp add: example_session_def)
  have len: "length (nodes ?s) = 1" "length (nodes (stopAudioPlayback ?s)) = 1"
    by (simp_all add: example_chunk stopAudioPlayback_def length_stop_source)
  from flush_then_enqueue_not_in_past[OF ctx example_decode, of 3]
  obtain n start where n:
    "nodes (playAudioChunk 3 ''AAA='' (stopAudioPlayback ?s)) = nodes (stopAudioPlayback ?s) @ [n]"
    "node_buffer n = \<lparr>channelData = [0], sampleRate = 24000\<rparr>"
    "node_start n = Some start" "start = max 0 3"
    "scheduledSources (playAudioChunk 3 ''AAA='' (stopAudioPlayback ?s)) = [length (nodes ?s)]"
    by blast
  show ?thesis using ctx example_decode n len by (simp add: example_duration)
qed



section \<open>Properties of the message handler\<close>

subsection \<open>Interruption\<close>

text \<open>
  The tracked chunks of a new session are started nodes, and the operations of the
  scheduler keep them so.
\<close>

lemma tracked_started_new: "tracked_started (new_LiveSession cfg)"
  by (simp add: tracked_started_def new_LiveSession_def)

lemma tracked_started_schedule_chunk:
  assumes "tracked_started s"
  shows "tracked_started (snd (schedule_chunk t b s))"
  using assms
  by (auto simp: tracked_started_def schedule_chunk_def Let_def source_start_def notify_def
      emit_def set_add_def list_all_iff nth_append nth_list_update split: option.splits if_splits)

lemma tracked_started_playAudioChunk:
  assumes "tracked_started s"
  shows "tracked_started (playAudioChunk t a s)"
proof -
  have log: "tracked_started (log_chunk_error s')" if "tracked_started s'" for s'
    using that by (simp add: tracked_started_def log_chunk_error_def emit_def)
  have "tracked_started (catch_chunk_error r)" if "tracked_started (snd r)" for r
    using that log by (cases r) (auto simp: catch_chunk_error_def split: option.splits)
  then show ?thesis
    using assms tracked_started_schedule_chunk[OF assms]
    by (auto simp: playAudioChunk_def playAudioChunk_try_def split: option.splits sum.splits)
qed

lemma tracked_started_stopAudioPlayback: "tracked_started (stopAudioPlayback s)"
  by (simp add: tracked_started_def stopAudioPlayback_def)

lemma tracked_started_onended:
  assumes "tracked_started s"
  shows "tracked_started (onended i s)"
  using assms
  by (auto simp: tracked_started_def onended_def list_all_iff nth_list_update)





lemma handleAudio_fields:
  "nodes (snd (handleAudio m s)) = nodes s"
  "scheduledSources (snd (handleAudio m s)) = scheduledSources s"
  "nextStartTime (snd (handleAudio m s)) = nextStartTime s"
  "config (snd (handleAudio m s)) = config s"
  by (simp_all add: handleAudio_def playAudioChunk_begin_def log_chunk_error_def emit_def
      split: option.splits sum.splits)

lemma handleAudio_events:
  "events (snd (handleAudio m s)) = events s
   \<or> events (snd (handleAudio m s)) = events s @ [ConsoleError ''Error playing audio chunk'']"
  by (simp add: handleAudio_def playAudioChunk_begin_def log_chunk_error_def emit_def
      split: option.splits sum.splits)




lemma source_stop_finished:
  "node_start n \<noteq> None \<Longrightarrow> source_stop n = Inr (n\<lparr>node_stopped := True\<rparr>)"
  by (simp add: source_stop_def)





lemma handleMessage_unfold:
  "handleMessage t m p s =
     handleToolCall m p
       (playAudioChunk_resume t (fst (handleMessage_sync m s)) (snd (handleMessage_sync m s)))"
  by (simp add: handleMessage_def split: prod.splits)




subsection \<open>Tool calls\<close>

lemma quiet_step_refl: "quiet_step s s"
  by (simp add: quiet_step_def)

lemma quiet_step_trans: "quiet_step s s1 \<Longrightarrow> quiet_step s1 s2 \<Longrightarrow> quiet_step s s2"
  by (auto simp: quiet_step_def)

lemma quiet_emit: "list_all (\<lambda>e. \<not> is_tool_response e) es \<Longrightarrow> quiet_step s (emit es s)"
  by (simp add: quiet_step_def emit_def)

lemma quiet_notify: "\<not> is_tool_response e \<Longrightarrow> quiet_step s (notify c e s)"
  by (simp add: notify_def quiet_emit quiet_step_refl)

lemma quiet_handleAudio: "quiet_step s (snd (handleAudio m s))"
  using handleAudio_events[of m s] by (auto simp: quiet_step_def handleAudio_fields)

lemma quiet_stopAudioPlayback: "quiet_step s (stopAudioPlayback s)"
  by (simp add: quiet_step_def stopAudioPlayback_def)

lemma quiet_handleInterruption: "quiet_step s (handleInterruption m s)"
proof -
  have "quiet_step s (notify c (Caption ''[Interrupted]'' False True) (stopAudioPlayback s))" for c
    by (rule quiet_step_trans[OF quiet_stopAudioPlayback quiet_notify]) simp
  then show ?thesis
    by (simp add: handleInterruption_def Let_def quiet_step_refl split: option.splits)
qed

lemma quiet_handleTranscription: "quiet_step s (handleTranscription u tr sc s)"
  by (simp add: handleTranscription_def quiet_step_refl quiet_notify split: option.splits)

lemma quiet_handleTranscriptions: "quiet_step s (handleTranscriptions m s)"
  by (simp add: handleTranscriptions_def quiet_step_refl
      quiet_step_trans[OF quiet_handleTranscription quiet_handleTranscription]
      split: option.splits)

lemma quiet_schedule_chunk: "quiet_step s (catch_chunk_error (schedule_chunk t b s))"
  by (auto simp: quiet_step_def schedule_chunk_def catch_chunk_error_def log_chunk_error_def
      Let_def notify_def emit_def split: option.splits sum.splits)

lemma quiet_playAudioChunk_resume: "quiet_step s (playAudioChunk_resume t p s)"
  by (simp add: playAudioChunk_resume_def log_chunk_error_def quiet_step_refl quiet_emit
      quiet_schedule_chunk split: pending_chunk.splits sum.splits)

lemma quiet_before_tool_call:
  "quiet_step s (playAudioChunk_resume t (fst (handleMessage_sync m s)) (snd (handleMessage_sync m s)))"
proof -
  have "snd (handleMessage_sync m s)
      = handleTranscriptions m (handleInterruption m (snd (handleAudio m s)))"
    by (simp add: handleMessage_sync_def split: prod.splits)
  then have "quiet_step s (snd (handleMessage_sync m s))"
    using quiet_step_trans[OF quiet_handleAudio
        quiet_step_trans[OF quiet_handleInterruption quiet_handleTranscriptions]]
    by simp
  then show ?thesis by (rule quiet_step_trans[OF _ quiet_playAudioChunk_resume])
qed

lemma functionResponses_matched:
  assumes "length results = length toolCalls"
  shows "\<exists>responses. functionResponses toolCalls results = Inr responses
           \<and> length responses = length toolCalls
           \<and> (\<forall>i<length toolCalls.
                 responses ! i = \<lparr>fr_id = fc_id (toolCalls ! i), fr_name = fc_name (toolCalls ! i),
                                  fr_response = JObject [(''result'', results ! i)]\<rparr>)"
  using assms by (simp add: functionResponses_def nth_enumerate_eq)

text \<open>
  Claim C1. For a tool-call batch \<open>calls\<close>, a configured dispatcher that resolves to as
  many results and a channel that is open, the handler sends exactly one tool-response
  batch; it has the size of \<open>calls\<close>, and response \<open>i\<close> carries the id and the name of
  call \<open>i\<close> and the object \<open>{result: results[i]}\<close>.
\<close>

theorem tool_responses_match_calls:
  assumes "toolCall message = Some calls" "onToolCall (config s) = Some dispatch"
    "dispatch (map copy_call calls) = Inr results" "length results = length calls"
    "sessionPromise = Inr ch"
  shows "\<exists>before responses.
           events (handleMessage t message sessionPromise s)
             = events s @ before @ [SendToolResponse responses]
         \<and> list_all (\<lambda>e. \<not> is_tool_response e) before
         \<and> length responses = length calls
         \<and> (\<forall>i<length calls.
               fr_id (responses ! i) = fc_id (calls ! i)
             \<and> fr_name (responses ! i) = fc_name (calls ! i)
             \<and> fr_response (responses ! i) = JObject [(''result'', results ! i)])"
proof -
  let ?s2 = "playAudioChunk_resume t (fst (handleMessage_sync message s))
               (snd (handleMessage_sync message s))"
  obtain before where before: "config ?s2 = config s" "events ?s2 = events s @ before"
    "list_all (\<lambda>e. \<not> is_tool_response e) before"
    using quiet_before_tool_call[of s t message] by (auto simp: quiet_step_def)
  have "length results = length (map copy_call calls)" using assms(4) by simp
  from functionResponses_matched[OF this] obtain responses where
    r: "functionResponses (map copy_call calls) results = Inr responses"
       "length responses = length calls"
       "\<forall>i<length calls. responses ! i =
           \<lparr>fr_id = fc_id (map copy_call calls ! i), fr_name = fc_name (map copy_call calls ! i),
            fr_response = JObject [(''result'', results ! i)]\<rparr>"
    by auto
  have "handleToolCall message sessionPromise ?s2 = emit [SendToolResponse responses] ?s2"
    using assms(1,2,3,5) r(1) by (simp add: handleToolCall_def before(1))
  then have "events (handleMessage t message sessionPromise s)
      = events s @ before @ [SendToolResponse responses]"
    by (simp add: handleMessage_unfold emit_def before(2))
  moreover have "\<forall>i<length calls.
               fr_id (responses ! i) = fc_id (calls ! i)
             \<and> fr_name (responses ! i) = fc_name (calls ! i)
             \<and> fr_response (responses ! i) = JObject [(''result'', results ! i)]"
    using r(3) by (simp add: copy_call_def)
  ultimately show ?thesis using before(3) r(2) by blast
qed

theorem tool_responses_match_calls_witness:
  "toolCall example_tool_message = Some [example_call]
   \<and> onToolCall (config example_tool_session) = Some example_dispatch
   \<and> example_dispatch (map copy_call [example_call]) = Inr [JString ''Reminder set for call mom'']
   \<and> (\<exists>before responses.
         events (handleMessage 0 example_tool_message (Inr Channel) example_tool_session)
           = events example_tool_session @ before @ [SendToolResponse responses]
       \<and> length responses = 1
       \<and> fr_id (responses ! 0) = ''call-1''
       \<and> fr_name (responses ! 0) = ''set_reminder''
       \<and> fr_response (responses ! 0) = JObject [(''result'', JString ''Reminder set for call mom'')])"
proof -
  have m: "toolCall example_tool_message = Some [example_call]"
    by (simp add: example_tool_message_def)
  have c: "onToolCall (config example_tool_session) = Some example_dispatch"
    by (simp add: example_tool_session_def)
  have d: "example_dispatch (map copy_call [example_call]) = Inr [JString ''Reminder set for call mom'']"
    by (simp add: example_dispatch_def)
  have l: "length [JString ''Reminder set for call mom''] = length [example_call]" by simp
  from tool_responses_match_calls[OF m c d l refl, of 0 Channel]
  show ?thesis using m c d by (auto simp: example_call_def)
qed

section \<open>Properties of \<open>stop\<close>\<close>

lemma last_state_append:
  "last_state st (xs @ ys) = last_state (last_state st xs) ys"
  by (induction st xs rule: last_state.induct) simp_all

lemma connection_state_emit:
  "\<forall>e\<in>set es. \<forall>st. e \<noteq> StateChange st \<Longrightarrow> connection_state (emit es s) = connection_state s"
proof -
  have "\<forall>e\<in>set es. \<forall>st. e \<noteq> StateChange st \<Longrightarrow> last_state st0 es = st0" for st0
    by (induction st0 es rule: last_state.induct) simp_all
  then show "\<forall>e\<in>set es. \<forall>st. e \<noteq> StateChange st \<Longrightarrow> connection_state (emit es s) = connection_state s"
    by (simp add: connection_state_def emit_def last_state_append)
qed

lemma stop_steps_connection_state:
  "connection_state (stopVideoStream s) = connection_state s"
  "connection_state (stopAudioPlayback s) = connection_state s"
  "connection_state (close_input_context s) = connection_state s"
  "connection_state (close_output_context s) = connection_state s"
  "connection_state (disconnect_processor s) = connection_state s"
  "connection_state (disconnect_source s) = connection_state s"
  "connection_state (close_session s) = connection_state s"
  "connection_state (s\<lparr>active := False\<rparr>) = connection_state s"
  using connection_state_emit[of _ s]
  by (simp_all add: stopVideoStream_def stopAudioPlayback_def close_input_context_def
      close_output_context_def disconnect_processor_def disconnect_source_def close_session_def
      connection_state_def emit_def Let_def split: option.splits)

lemma stop_connection_state: "connection_state (stop s) = connection_state s"
  by (simp add: stop_def stop_steps_connection_state)

lemma stop_fields:
  "active (stop s) = False" "references_cleared (stop s)"
  "scheduledSources (stop s) = []" "nextStartTime (stop s) = 0"
  by (simp_all add: stop_def references_cleared_def stopVideoStream_def stopAudioPlayback_def
      close_input_context_def close_output_context_def disconnect_processor_def
      disconnect_source_def close_session_def emit_def Let_def split: option.splits)

lemma stop_when_cleared:
  assumes "active s = False" "references_cleared s" "scheduledSources s = []"
    "nextStartTime s = 0"
  shows "stop s = s"
  using assms
  by (simp add: stop_def references_cleared_def stopVideoStream_def stopAudioPlayback_def
      close_input_context_def close_output_context_def disconnect_processor_def
      disconnect_source_def close_session_def Let_def)

text \<open>
  Claim C6, amended. \<open>stop\<close> is a total function (its only call that can raise,
  \<open>source.stop()\<close>, is inside \<open>try\<close>/\<open>catch\<close>). A second call changes nothing, and a call
  on a session that was never connected changes nothing. After \<open>stop\<close> the active flag
  is false, every handle is cleared, no chunk is tracked and the cursor is \<open>0\<close>.
  \<open>stop\<close> does not report a connection state: the state last reported through
  \<open>onStateChange\<close> is what it was before the call (\<open>DISCONNECTED\<close> for a session that has
  reported nothing).
\<close>

theorem stop_idempotent_and_clears:
  "stop (stop s) = stop s
   \<and> active (stop s) = False \<and> references_cleared (stop s)
   \<and> scheduledSources (stop s) = [] \<and> nextStartTime (stop s) = 0
   \<and> connection_state (stop s) = connection_state s
   \<and> stop (new_LiveSession cfg) = new_LiveSession cfg
   \<and> connection_state (new_LiveSession cfg) = DISCONNECTED"
proof -
  have "stop (stop s) = stop s"
    by (rule stop_when_cleared) (rule stop_fields)+
  moreover have "stop (new_LiveSession cfg) = new_LiveSession cfg"
    by (rule stop_when_cleared) (simp_all add: new_LiveSession_def references_cleared_def)
  moreover have "connection_state (new_LiveSession cfg) = DISCONNECTED"
    by (simp add: connection_state_def new_LiveSession_def)
  ultimately show ?thesis by (simp add: stop_fields stop_connection_state)
qed

text \<open>
  The claim as stated fails: when the microphone is refused, \<open>connect\<close> reports \<open>ERROR\<close>
  and calls \<open>stop\<close>; after that call, and after any further call of \<open>stop\<close>, the
  reported connection state is \<open>ERROR\<close>, not \<open>DISCONNECTED\<close>.
\<close>

theorem stop_leaves_error_state_counterexample:
  "connection_state (stop (connect (Inl NotAllowedError) (new_LiveSession example_config))) = ERROR
   \<and> connection_state (stop (connect (Inl NotAllowedError) (new_LiveSession example_config)))
       \<noteq> DISCONNECTED"
proof -
  let ?failed = "(new_LiveSession example_config)
      \<lparr>inputAudioContext := Some (AudioContext 16000),
       outputAudioContext := Some (AudioContext 24000),
       events := [StateChange CONNECTING, ConsoleError ''Failed to connect live session'',
                  StateChange ERROR]\<rparr>"
  have "connect (Inl NotAllowedError) (new_LiveSession example_config) = stop ?failed"
    by (simp add: connect_def new_LiveSession_def example_config_def notify_def emit_def Let_def)
  moreover have "connection_state ?failed = ERROR"
    by (simp add: connection_state_def)
  ultimately show ?thesis by (simp add: stop_connection_state)
qed

end
